theory Spec2Isabelle
  imports Complex_Main
begin

section \<open>Data model\<close>

text \<open>
  A frame (and an utterance) is a one-dimensional array of samples. The source holds
  them as numpy float32 arrays; here a sample is a real number, so the mean of the
  absolute values and the gain product are the exact ones, without rounding.
\<close>

type_synonym frame = "real list"

subsection \<open>core/vad.py: class EnergyVAD\<close>

record EnergyVAD =
  sr :: int
  th :: real
  min_utt :: int
  max_utt :: int
  silence_need :: int
  buf :: frame
  silence_run :: int
  in_speech :: bool

text \<open>\<^verbatim>\<open>int(x)\<close> of Python on a float: truncation towards zero.\<close>

definition py_int :: "real \<Rightarrow> int" where
  "py_int x = (if 0 \<le> x then \<lfloor>x\<rfloor> else \<lceil>x\<rceil>)"

definition reset :: "EnergyVAD \<Rightarrow> EnergyVAD" where
  "reset v = v\<lparr>buf := [], silence_run := 0, in_speech := False\<rparr>"

text \<open>
  \<^verbatim>\<open>EnergyVAD.__init__(sr, energy_thresh, min_utt_ms, max_utt_ms, silence_ms)\<close>; the
  defaults of the source are 0.015, 900, 6000 and 450.
\<close>

definition EnergyVAD_init :: "int \<Rightarrow> real \<Rightarrow> int \<Rightarrow> int \<Rightarrow> int \<Rightarrow> EnergyVAD" where
  "EnergyVAD_init s energy_thresh min_utt_ms max_utt_ms silence_ms =
     reset \<lparr>sr = s, th = energy_thresh,
            min_utt = py_int (real_of_int (s * min_utt_ms) / 1000),
            max_utt = py_int (real_of_int (s * max_utt_ms) / 1000),
            silence_need = py_int (real_of_int (s * silence_ms) / 1000),
            buf = [], silence_run = 0, in_speech = False\<rparr>"

text \<open>
  \<^verbatim>\<open>float(np.mean(np.abs(f)))\<close>. The mean of an empty array is NaN in numpy; it is
  \<open>None\<close> here, and every comparison with it is false, as with NaN.
\<close>

definition energy :: "frame \<Rightarrow> real option" where
  "energy f = (if f = [] then None else Some (sum_list (map abs f) / real (length f)))"

text \<open>\<^verbatim>\<open>voice = energy >= self.th\<close>\<close>

definition voice :: "real \<Rightarrow> frame \<Rightarrow> bool" where
  "voice t f = (case energy f of None \<Rightarrow> False | Some e \<Rightarrow> t \<le> e)"

text \<open>
  \<^verbatim>\<open>EnergyVAD.feed\<close>: the returned utterance (\<open>None\<close> when the source returns None)
  and the state after the call.
\<close>

definition feed :: "EnergyVAD \<Rightarrow> frame \<Rightarrow> frame option \<times> EnergyVAD" where
  "feed v f =
     (let v1 = v\<lparr>buf := buf v @ f\<rparr>;
          v2 = (if voice (th v1) f
                then v1\<lparr>in_speech := True, silence_run := 0\<rparr>
                else v1\<lparr>silence_run := silence_run v1 + int (length f)\<rparr>)
      in if in_speech v2 \<and> max_utt v2 \<le> int (length (buf v2))
         then (Some (buf v2), reset v2)
         else if in_speech v2 \<and> silence_need v2 \<le> silence_run v2
         then (if min_utt v2 \<le> int (length (buf v2))
               then (Some (buf v2), reset v2)
               else (None, reset v2))
         else (None, v2))"

text \<open>A sequence of \<open>feed\<close> calls: the value returned by each call, and the last state.\<close>

fun feed_all :: "EnergyVAD \<Rightarrow> frame list \<Rightarrow> frame option list \<times> EnergyVAD" where
  "feed_all v [] = ([], v)"
| "feed_all v (f # fs) =
     (case feed v f of (r, v') \<Rightarrow>
        (case feed_all v' fs of (rs, v'') \<Rightarrow> (r # rs, v'')))"

text \<open>The segmenter of the example: one sample per frame, so that lengths count frames.\<close>

definition vad_example :: "int \<Rightarrow> EnergyVAD" where
  "vad_example mx = reset \<lparr>sr = 1, th = 15 / 1000, min_utt = 2, max_utt = mx,
                            silence_need = 4, buf = [], silence_run = 0, in_speech = False\<rparr>"


subsection \<open>core/audio.py\<close>

text \<open>\<^verbatim>\<open>np.clip(x, lo, hi)\<close> on one sample: \<^verbatim>\<open>minimum(maximum(x, lo), hi)\<close>.\<close>

definition clip :: "real \<Rightarrow> real \<Rightarrow> real \<Rightarrow> real" where
  "clip x lo hi = min (max x lo) hi"

text \<open>
  \<^verbatim>\<open>apply_gain(x, gain_db)\<close>: \<^verbatim>\<open>if not gain_db: return x\<close> comes first; the power
  \<^verbatim>\<open>10.0 ** (gain_db / 20.0)\<close> has a positive base, so it is \<open>powr\<close>.
\<close>

definition apply_gain :: "frame \<Rightarrow> real \<Rightarrow> frame" where
  "apply_gain x gain_db =
     (if gain_db = 0 then x
      else (let g = 10 powr (gain_db / 20) in map (\<lambda>s. clip (s * g) (- 1) 1) x))"

subsection \<open>The libraries the recognizer calls\<close>

text \<open>
  Language codes are strings. A transcript is a Python \<^verbatim>\<open>str\<close>: a list of Unicode code
  points, so that \<^verbatim>\<open>len\<close> counts what Python counts.
\<close>

type_synonym lang = string
type_synonym transcript = "nat list"

text \<open>
  The code of whisper and scipy is not part of the repository; the functions the
  recognizer calls are parameters of the model. \<open>detect_language\<close> is
  \<^verbatim>\<open>model.detect_language(whisper.log_mel_spectrogram(audio))[1]\<close>, a dict in the order
  of its keys; \<open>transcribe\<close> is \<^verbatim>\<open>model.transcribe(audio, language=lang, ...).get("text")\<close>.
  Both take as first argument the number of calls made to the model before this one, so
  that a model whose answer changes from one call to the next is not excluded.
  \<open>wiener\<close> is \<^verbatim>\<open>scipy.signal.wiener(x, mysize=29)\<close>, \<open>None\<close> when it raises.
\<close>

record libs =
  pad_or_trim :: "frame \<Rightarrow> frame"
  wiener :: "frame \<Rightarrow> frame option"
  detect_language :: "nat \<Rightarrow> frame \<Rightarrow> (lang \<times> real) list"
  transcribe :: "nat \<Rightarrow> frame \<Rightarrow> lang \<Rightarrow> transcript option"

text \<open>\<^verbatim>\<open>denoise_wiener(x)\<close>: the filtered block clipped, the input itself on an exception.\<close>

definition denoise_wiener :: "libs \<Rightarrow> frame \<Rightarrow> frame" where
  "denoise_wiener L x =
     (case wiener L x of None \<Rightarrow> x | Some y \<Rightarrow> map (\<lambda>s. clip s (- 1) 1) y)"

subsection \<open>Python strings and dicts\<close>

text \<open>\<^verbatim>\<open>str.isspace\<close> on one code point, and \<^verbatim>\<open>str.strip()\<close>.\<close>

definition isspace :: "nat \<Rightarrow> bool" where
  "isspace c = ((9 \<le> c \<and> c \<le> 13) \<or> (28 \<le> c \<and> c \<le> 32) \<or> c = 133 \<or> c = 160
                \<or> c = 5760 \<or> (8192 \<le> c \<and> c \<le> 8202) \<or> c = 8232 \<or> c = 8233
                \<or> c = 8239 \<or> c = 8287 \<or> c = 12288)"

definition strip :: "transcript \<Rightarrow> transcript" where
  "strip t = rev (dropWhile isspace (rev (dropWhile isspace t)))"

text \<open>\<^verbatim>\<open>d.get(k, default)\<close> on a dict held as the list of its items.\<close>

definition dict_get :: "('k \<times> 'v) list \<Rightarrow> 'k \<Rightarrow> 'v \<Rightarrow> 'v" where
  "dict_get d k dflt = (case map_of d k of None \<Rightarrow> dflt | Some v \<Rightarrow> v)"

text \<open>
  \<^verbatim>\<open>max(iterable, key=...)\<close> after its first element: a later element replaces the best
  one only when its key is strictly greater, so the first maximal element is returned.
\<close>

fun py_max :: "('a \<Rightarrow> real) \<Rightarrow> 'a \<Rightarrow> 'a list \<Rightarrow> 'a" where
  "py_max key best [] = best"
| "py_max key best (x # xs) = py_max key (if key best < key x then x else best) xs"

text \<open>Truth value of an \<^verbatim>\<open>Optional[str]\<close>, and \<^verbatim>\<open>a or b\<close> on it.\<close>

definition truthy :: "lang option \<Rightarrow> bool" where
  "truthy l = (case l of None \<Rightarrow> False | Some s \<Rightarrow> s \<noteq> [])"

definition py_or :: "lang option \<Rightarrow> lang \<Rightarrow> lang" where
  "py_or l d = (case l of None \<Rightarrow> d | Some s \<Rightarrow> if s = [] then d else s)"

subsection \<open>core/recognizer.py: class WhisperRecognizer\<close>

text \<open>One call to the model, with the audio it was given.\<close>

datatype call = Detect frame | Transcribe frame lang

text \<open>
  The fields of the recognizer that the processing and capture threads read or write.
  \<open>model_loaded\<close> is \<^verbatim>\<open>self.model is not None\<close>; the \<open>cfg_\<close> fields are the
  properties of \<^verbatim>\<open>self.cfg\<close>; \<open>audio_q\<close> is the queue of capacity 12, oldest frame
  first. \<open>calls\<close> records the calls made to the model and \<open>emitted\<close> the lines given to
  \<^verbatim>\<open>on_text\<close>, each line \<^verbatim>\<open>[LANG] text\<close> as the pair of its language and its text.
\<close>

record recognizer =
  is_running :: bool
  is_paused :: bool
  stop_evt :: bool
  model_loaded :: bool
  audio_q :: "frame list"
  vad :: EnergyVAD
  last_lang :: "lang option"
  cfg_gain_db :: real
  cfg_noise_reduction :: bool
  cfg_lang_mode :: string
  cfg_chosen_lang :: string
  calls :: "call list"
  emitted :: "(lang \<times> transcript) list"

definition allowed :: "lang set" where
  "allowed = {''ru'', ''en'', ''zh''}"

text \<open>
  \<^verbatim>\<open>_best_lang(audio, exclude, force)\<close>; an absent or empty \<^verbatim>\<open>exclude\<close> is the empty
  set. The empty dict takes the first branch, as \<^verbatim>\<open>if not filt\<close> does.
\<close>

definition best_lang :: "libs \<Rightarrow> recognizer \<Rightarrow> frame \<Rightarrow> lang set \<Rightarrow> bool \<Rightarrow> lang \<times> recognizer" where
  "best_lang L r audio exclude force =
     (let probs = detect_language L (length (calls r)) audio;
          r' = r\<lparr>calls := calls r @ [Detect audio]\<rparr>;
          filt0 = filter (\<lambda>kv. fst kv \<in> allowed) probs;
          filt = (if exclude \<noteq> {} then filter (\<lambda>kv. fst kv \<notin> exclude) filt0 else filt0)
      in case map fst filt of
           [] \<Rightarrow> (py_or (last_lang r) ''en'', r')
         | k # ks \<Rightarrow>
             (let lang = py_max (\<lambda>k. dict_get filt k 0) k ks
              in if \<not> force \<and> truthy (last_lang r) \<and> last_lang r \<noteq> Some lang
                    \<and> dict_get filt lang 0 < 1 / 2
                 then (the (last_lang r), r')
                 else (lang, r')))"

text \<open>\<^verbatim>\<open>_asr(audio, lang)\<close>: \<^verbatim>\<open>(res.get("text") or "").strip()\<close>.\<close>

definition asr :: "libs \<Rightarrow> recognizer \<Rightarrow> frame \<Rightarrow> lang \<Rightarrow> transcript \<times> recognizer" where
  "asr L r audio lang =
     (strip (case transcribe L (length (calls r)) audio lang of None \<Rightarrow> [] | Some t \<Rightarrow> t),
      r\<lparr>calls := calls r @ [Transcribe audio lang]\<rparr>)"

text \<open>
  The choice of the language and the transcription in \<^verbatim>\<open>_process_loop\<close>
  (\<^verbatim>\<open>mode = self.cfg.lang_mode\<close> to \<^verbatim>\<open>text = self._asr(y, lang)\<close>): the language, the
  text and the state.
\<close>

definition primary_lang :: "recognizer \<Rightarrow> lang" where
  "primary_lang r = (if cfg_chosen_lang r \<in> allowed then cfg_chosen_lang r else ''ru'')"

definition recognize :: "libs \<Rightarrow> recognizer \<Rightarrow> frame \<Rightarrow> (lang \<times> transcript) \<times> recognizer" where
  "recognize L r y =
     (if cfg_lang_mode r = ''exclusive'' then
        (let lang = primary_lang r in
         case asr L r y lang of (text, r1) \<Rightarrow> ((lang, text), r1))
      else if cfg_lang_mode r = ''priority'' then
        (let primary = primary_lang r in
         case asr L r y primary of (text, r1) \<Rightarrow>
           if length (strip text) < 2 then
             (case best_lang L r1 y {primary} False of (lang, r2) \<Rightarrow>
                case asr L r2 y lang of (text2, r3) \<Rightarrow> ((lang, text2), r3))
           else ((primary, text), r1))
      else
        (case best_lang L r y {} False of (lang, r1) \<Rightarrow>
           case (if truthy (last_lang r1) \<and> last_lang r1 \<noteq> Some lang
                 then best_lang L r1 y {} True else (lang, r1)) of (lang', r2) \<Rightarrow>
             case asr L (r2\<lparr>last_lang := Some lang'\<rparr>) y lang' of (text, r3) \<Rightarrow>
               ((lang', text), r3)))"

text \<open>What the loop does with an utterance the segmenter returned.\<close>

definition process_utterance :: "libs \<Rightarrow> recognizer \<Rightarrow> frame \<Rightarrow> recognizer" where
  "process_utterance L r utt =
     (if \<not> model_loaded r then r
      else
        (let y0 = pad_or_trim L utt;
             y = (if cfg_noise_reduction r then denoise_wiener L y0 else y0)
         in case recognize L r y of ((lang, text), r1) \<Rightarrow>
              if text \<noteq> [] then r1\<lparr>emitted := emitted r1 @ [(lang, strip text)]\<rparr> else r1))"

text \<open>
  One pass through the body of the \<^verbatim>\<open>while\<close> of \<^verbatim>\<open>_process_loop\<close>, with the utterance
  the segmenter returned in it, if any. An empty queue is the \<^verbatim>\<open>queue.Empty\<close> of the
  timeout.
\<close>

definition process_iteration :: "libs \<Rightarrow> recognizer \<Rightarrow> frame option \<times> recognizer" where
  "process_iteration L r =
     (if \<not> (is_running r \<and> \<not> stop_evt r) then (None, r)
      else case audio_q r of
             [] \<Rightarrow> (None, r)
           | x # q \<Rightarrow>
               (let r1 = r\<lparr>audio_q := q\<rparr> in
                if is_paused r1 then (None, r1\<lparr>vad := reset (vad r1)\<rparr>)
                else case feed (vad r1) x of (utt, v') \<Rightarrow>
                  (case utt of
                     None \<Rightarrow> (None, r1\<lparr>vad := v'\<rparr>)
                   | Some u \<Rightarrow> (Some u, process_utterance L (r1\<lparr>vad := v'\<rparr>) u))))"

text \<open>\<^verbatim>\<open>pause()\<close>, \<^verbatim>\<open>resume()\<close> and the callback \<^verbatim>\<open>_cb\<close> of the input stream.\<close>

definition pause :: "recognizer \<Rightarrow> recognizer" where
  "pause r = (if \<not> is_running r then r else r\<lparr>is_paused := True\<rparr>)"

definition resume :: "recognizer \<Rightarrow> recognizer" where
  "resume r = (if \<not> is_running r then r else r\<lparr>is_paused := False\<rparr>)"

definition mic_callback :: "recognizer \<Rightarrow> frame \<Rightarrow> recognizer" where
  "mic_callback r indata =
     (if stop_evt r then r
      else if \<not> is_running r \<or> is_paused r then r
      else (let x = apply_gain indata (cfg_gain_db r)
            in if 12 \<le> length (audio_q r) then r else r\<lparr>audio_q := audio_q r @ [x]\<rparr>))"

text \<open>
  The threads, interleaved: a call of \<^verbatim>\<open>pause\<close> or \<^verbatim>\<open>resume\<close> from the user
  interface, a block delivered to the callback, or one pass of the processing loop.
  \<open>run\<close> returns the utterance of each event (\<open>None\<close> for an event without one).
\<close>

datatype event = Pause | Resume | Mic frame | Proc

fun step :: "libs \<Rightarrow> recognizer \<Rightarrow> event \<Rightarrow> frame option \<times> recognizer" where
  "step L r Pause = (None, pause r)"
| "step L r Resume = (None, resume r)"
| "step L r (Mic x) = (None, mic_callback r x)"
| "step L r Proc = process_iteration L r"

fun run :: "libs \<Rightarrow> recognizer \<Rightarrow> event list \<Rightarrow> frame option list \<times> recognizer" where
  "run L r [] = ([], r)"
| "run L r (e # es) =
     (case step L r e of (u, r') \<Rightarrow>
        (case run L r' es of (us, r'') \<Rightarrow> (u # us, r'')))"


subsection \<open>Concrete inputs\<close>

text \<open>\<^verbatim>\<open>whisper.pad_or_trim\<close> on a one-dimensional array: 30 seconds at 16 kHz.\<close>

definition whisper_pad_or_trim :: "frame \<Rightarrow> frame" where
  "whisper_pad_or_trim x = take 480000 x @ replicate (480000 - length x) 0"

text \<open>
  A model that answers every detection with the same dict and every transcription in a
  language with the text listed for that language, whatever the audio; its Wiener filter
  raises.
\<close>

definition libs_example :: "(lang \<times> real) list \<Rightarrow> (lang \<times> transcript) list \<Rightarrow> libs" where
  "libs_example probs tr =
     \<lparr>pad_or_trim = whisper_pad_or_trim, wiener = (\<lambda>x. None),
      detect_language = (\<lambda>n a. probs), transcribe = (\<lambda>n a l. map_of tr l)\<rparr>"

text \<open>
  The recognizer after \<^verbatim>\<open>__init__\<close> with the defaults of \<^verbatim>\<open>ConfigManager\<close>, after
  \<^verbatim>\<open>start()\<close> and once the model is loaded.
\<close>

definition recognizer_running :: recognizer where
  "recognizer_running =
     \<lparr>is_running = True, is_paused = False, stop_evt = False, model_loaded = True,
      audio_q = [], vad = EnergyVAD_init 16000 (15 / 1000) 900 6000 450, last_lang = None,
      cfg_gain_db = 0, cfg_noise_reduction = True, cfg_lang_mode = ''standard'',
      cfg_chosen_lang = ''ru'', calls = [], emitted = []\<rparr>"

text \<open>A block of 200 ms at 16 kHz, all of its samples \<open>c\<close>.\<close>

definition block :: "real \<Rightarrow> frame" where
  "block c = replicate 3200 c"

text \<open>
  The choice of the language in standard mode as the claim on the confirmation pass
  describes it: one detection pass with the hysteresis, no second pass.
\<close>

definition one_pass_standard :: "libs \<Rightarrow> recognizer \<Rightarrow> frame \<Rightarrow> (lang \<times> transcript) \<times> recognizer" where
  "one_pass_standard L r y =
     (case best_lang L r y {} False of (lang, r1) \<Rightarrow>
        case asr L (r1\<lparr>last_lang := Some lang\<rparr>) y lang of (text, r2) \<Rightarrow>
          ((lang, text), r2))"


section \<open>The segmenter\<close>

subsection \<open>Unfolding a sequence of calls\<close>

lemma feed_all_Cons:
  "feed_all v (f # fs) =
     (fst (feed v f) # fst (feed_all (snd (feed v f)) fs),
      snd (feed_all (snd (feed v f)) fs))"
  by (simp split: prod.splits)

declare feed_all.simps(2) [simp del]
declare feed_all_Cons [simp]

lemma feed_all_append:
  "feed_all v (xs @ ys) =
     (fst (feed_all v xs) @ fst (feed_all (snd (feed_all v xs)) ys),
      snd (feed_all (snd (feed_all v xs)) ys))"
  by (induction xs arbitrary: v) auto

lemma length_feed_all [simp]: "length (fst (feed_all v fs)) = length fs"
  by (induction fs arbitrary: v) auto

text \<open>The value returned by call number \<open>i\<close> is that of \<open>feed\<close> in the state the calls before it left.\<close>

lemma feed_all_nth:
  assumes i: "i < length fs"
  shows "fst (feed_all v fs) ! i = fst (feed (snd (feed_all v (take i fs))) (fs ! i))"
proof -
  from i have fs: "fs = take i fs @ (fs ! i) # drop (Suc i) fs"
    by (simp add: id_take_nth_drop)
  have "fst (feed_all v fs) ! i = fst (feed_all v (take i fs @ (fs ! i) # drop (Suc i) fs)) ! i"
    using fs by simp
  also have "\<dots> = fst (feed (snd (feed_all v (take i fs))) (fs ! i))"
    using i by (simp add: feed_all_append nth_append)
  finally show ?thesis .
qed

subsection \<open>One call\<close>

lemma reset_fields [simp]:
  "buf (reset v) = []" "silence_run (reset v) = 0" "in_speech (reset v) = False"
  "th (reset v) = th v" "min_utt (reset v) = min_utt v" "max_utt (reset v) = max_utt v"
  "silence_need (reset v) = silence_need v" "sr (reset v) = sr v"
  by (simp_all add: reset_def)

lemma reset_reset [simp]: "reset (reset v) = reset v"
  by (simp add: reset_def)

lemma reset_update [simp]:
  "reset (v\<lparr>buf := b\<rparr>) = reset v"
  "reset (v\<lparr>silence_run := n\<rparr>) = reset v"
  "reset (v\<lparr>in_speech := s\<rparr>) = reset v"
  by (simp_all add: reset_def)

lemma feed_voice:
  assumes "voice (th v) f"
  shows "feed v f =
    (if max_utt v \<le> int (length (buf v @ f)) then (Some (buf v @ f), reset v)
     else if silence_need v \<le> 0
          then (if min_utt v \<le> int (length (buf v @ f)) then (Some (buf v @ f), reset v)
                else (None, reset v))
     else (None, v\<lparr>buf := buf v @ f, in_speech := True, silence_run := 0\<rparr>))"
  using assms by (simp add: feed_def Let_def)

lemma feed_silent:
  assumes "\<not> voice (th v) f"
  shows "feed v f =
    (if in_speech v \<and> max_utt v \<le> int (length (buf v @ f)) then (Some (buf v @ f), reset v)
     else if in_speech v \<and> silence_need v \<le> silence_run v + int (length f)
          then (if min_utt v \<le> int (length (buf v @ f)) then (Some (buf v @ f), reset v)
                else (None, reset v))
     else (None, v\<lparr>buf := buf v @ f, silence_run := silence_run v + int (length f)\<rparr>))"
  using assms by (simp add: feed_def Let_def)

text \<open>The configuration is never written by \<open>feed\<close>.\<close>

lemma feed_config:
  "th (snd (feed v f)) = th v \<and> min_utt (snd (feed v f)) = min_utt v
   \<and> max_utt (snd (feed v f)) = max_utt v \<and> silence_need (snd (feed v f)) = silence_need v"
  by (cases "voice (th v) f") (simp_all add: feed_voice feed_silent)

lemma feed_all_config:
  "th (snd (feed_all v fs)) = th v \<and> min_utt (snd (feed_all v fs)) = min_utt v
   \<and> max_utt (snd (feed_all v fs)) = max_utt v
   \<and> silence_need (snd (feed_all v fs)) = silence_need v"
  by (induction fs arbitrary: v) (simp_all add: feed_config)

lemma feed_emits:
  assumes "fst (feed v f) = Some u"
  shows "u = buf v @ f \<and> snd (feed v f) = reset v \<and>
         (max_utt v \<le> int (length u) \<or> min_utt v \<le> int (length u))"
  using assms by (cases "voice (th v) f") (auto simp: feed_voice feed_silent split: if_splits)

subsection \<open>Silence\<close>





subsection \<open>What an emitted utterance is\<close>

lemma feed_emits_cases:
  assumes "fst (feed v f) = Some u"
  shows "u = buf v @ f \<and> snd (feed v f) = reset v \<and>
         (voice (th v) f \<or> in_speech v) \<and>
         (max_utt v \<le> int (length u) \<or>
          (min_utt v \<le> int (length u) \<and>
           silence_need v \<le> (if voice (th v) f then 0 else silence_run v + int (length f))))"
  using assms by (cases "voice (th v) f") (auto simp: feed_voice feed_silent split: if_splits)

lemma vad_example_fields [simp]:
  "th (vad_example m) = 15 / 1000" "min_utt (vad_example m) = 2" "max_utt (vad_example m) = m"
  "silence_need (vad_example m) = 4" "buf (vad_example m) = []"
  "silence_run (vad_example m) = 0" "in_speech (vad_example m) = False"
  "reset (vad_example m) = vad_example m"
  by (simp_all add: vad_example_def)

lemma voice_single: "voice t [a] \<longleftrightarrow> t \<le> \<bar>a\<bar>"
  by (simp add: voice_def energy_def)


lemma example_run:
  "feed_all (vad_example 30)
        [[0], [0], [2 / 100], [2 / 100], [2 / 100], [0], [0], [0], [0], [0]] =
     ([None, None, None, None, None, None, None, None,
       Some [0, 0, 2 / 100, 2 / 100, 2 / 100, 0, 0, 0, 0], None],
      (vad_example 30)\<lparr>buf := [0], silence_run := 1\<rparr>)"
  by (simp del: feed_all_Cons
        add: feed_all.simps(2) vad_example_def reset_def feed_voice feed_silent voice_single)

text \<open>
  Claim C6. With a minimum and a maximum utterance length of at least one sample, in every
  sequence of calls every utterance returned (by call number \<open>i\<close>) is the buffer with the
  frame of that call appended, has at least one sample, and has reached the maximum
  length (force cut) or has reached the minimum length while the silence run has reached
  the silence needed (end by silence).
\<close>

theorem emitted_utterance_nonempty:
  assumes "1 \<le> min_utt v" "1 \<le> max_utt v" "i < length fs" "fst (feed_all v fs) ! i = Some u"
  shows "0 < length u \<and> u = buf (snd (feed_all v (take i fs))) @ fs ! i \<and>
         (max_utt v \<le> int (length u) \<or>
          (min_utt v \<le> int (length u) \<and>
           silence_need v \<le> (if voice (th v) (fs ! i) then 0
              else silence_run (snd (feed_all v (take i fs))) + int (length (fs ! i)))))"
proof -
  let ?s = "snd (feed_all v (take i fs))"
  have cfg: "th ?s = th v" "min_utt ?s = min_utt v" "max_utt ?s = max_utt v"
    "silence_need ?s = silence_need v"
    using feed_all_config[of v "take i fs"] by simp_all
  from assms(3,4) have "fst (feed ?s (fs ! i)) = Some u"
    by (simp add: feed_all_nth)
  from feed_emits_cases[OF this] cfg assms(1,2) show ?thesis
    by auto
qed

theorem emitted_utterance_nonempty_witness:
  "0 < length [0, 0, 2 / 100, 2 / 100, 2 / 100, 0, 0, 0, 0 :: real]
   \<and> min_utt (vad_example 30) \<le> int (length [0, 0, 2 / 100, 2 / 100, 2 / 100, 0, 0, 0, 0 :: real])"
proof -
  let ?fs = "[[0], [0], [2 / 100], [2 / 100], [2 / 100], [0], [0], [0], [0], [0 :: real]]"
  have h: "1 \<le> min_utt (vad_example 30)" "1 \<le> max_utt (vad_example 30)" "8 < length ?fs"
    by simp_all
  have e: "fst (feed_all (vad_example 30) ?fs) ! 8
             = Some [0, 0, 2 / 100, 2 / 100, 2 / 100, 0, 0, 0, 0]"
    by (simp only: example_run fst_conv) simp
  from emitted_utterance_nonempty[OF h e] show ?thesis by simp
qed

subsection \<open>Continuous speech\<close>

lemma voice_nonempty: "voice t f \<Longrightarrow> f \<noteq> []"
  by (auto simp: voice_def energy_def)







subsection \<open>The example of the specification\<close>

lemma energy_zeros: "0 < L \<Longrightarrow> energy (replicate L 0) = Some 0"
  by (simp add: energy_def sum_list_replicate)

text \<open>
  Claim C1, as the code has it. With threshold 0.015, a minimum of 2 frames, a silence
  of 4 frames and a maximum of more than 9 frames (frames of \<open>L\<close> samples), the ten frames
  of energies 0, 0, 0.02, 0.02, 0.02, 0, 0, 0, 0, 0 give one utterance, returned by the
  ninth call: the nine frames fed so far, the two silent ones before the speech and the
  four after it included. The ninth call leaves the reset state; after the tenth the
  buffer holds the tenth frame.
\<close>

theorem example_sequence_nine_frames:
  assumes cfg: "th v = 15 / 1000" "min_utt v = 2 * int L" "silence_need v = 4 * int L"
      "9 * int L < max_utt v"
    and x: "energy x3 = Some (2 / 100)" "energy x4 = Some (2 / 100)" "energy x5 = Some (2 / 100)"
    and len: "length x3 = L" "length x4 = L" "length x5 = L"
    and z: "z = replicate L 0"
  shows "feed_all (reset v) [z, z, x3, x4, x5, z, z, z, z, z] =
           ([None, None, None, None, None, None, None, None,
             Some (z @ z @ x3 @ x4 @ x5 @ z @ z @ z @ z), None],
            (reset v)\<lparr>buf := z, silence_run := int L\<rparr>)
         \<and> snd (feed_all (reset v) [z, z, x3, x4, x5, z, z, z, z]) = reset v
         \<and> length (z @ z @ x3 @ x4 @ x5 @ z @ z @ z @ z) = 9 * L"
proof -
  from x(1) len(1) have L: "0 < L" by (auto simp: energy_def split: if_splits)
  have vx: "voice (th v) x3" "voice (th v) x4" "voice (th v) x5"
    using x cfg(1) by (simp_all add: voice_def)
  have vz: "\<not> voice (th v) z"
    using L z cfg(1) by (simp add: voice_def energy_zeros)
  have lz: "length z = L" using z by simp
  let ?v1 = "(reset v)\<lparr>buf := z, silence_run := int L\<rparr>"
  let ?v2 = "(reset v)\<lparr>buf := z @ z, silence_run := 2 * int L\<rparr>"
  let ?v3 = "(reset v)\<lparr>buf := z @ z @ x3, in_speech := True, silence_run := 0\<rparr>"
  let ?v4 = "(reset v)\<lparr>buf := z @ z @ x3 @ x4, in_speech := True, silence_run := 0\<rparr>"
  let ?v5 = "(reset v)\<lparr>buf := z @ z @ x3 @ x4 @ x5, in_speech := True, silence_run := 0\<rparr>"
  let ?v6 = "(reset v)\<lparr>buf := z @ z @ x3 @ x4 @ x5 @ z, in_speech := True, silence_run := int L\<rparr>"
  let ?v7 = "(reset v)\<lparr>buf := z @ z @ x3 @ x4 @ x5 @ z @ z, in_speech := True,
                silence_run := 2 * int L\<rparr>"
  let ?v8 = "(reset v)\<lparr>buf := z @ z @ x3 @ x4 @ x5 @ z @ z @ z, in_speech := True,
                silence_run := 3 * int L\<rparr>"
  have s1: "feed (reset v) z = (None, ?v1)"
    using vz lz by (simp add: feed_silent)
  have s2: "feed ?v1 z = (None, ?v2)"
    using vz lz by (simp add: feed_silent)
  have s3: "feed ?v2 x3 = (None, ?v3)"
    using vx len lz cfg(2-4) L by (simp add: feed_voice)
  have s4: "feed ?v3 x4 = (None, ?v4)"
    using vx len lz cfg(2-4) L by (simp add: feed_voice)
  have s5: "feed ?v4 x5 = (None, ?v5)"
    using vx len lz cfg(2-4) L by (simp add: feed_voice)
  have s6: "feed ?v5 z = (None, ?v6)"
    using vz len lz cfg(2-4) L by (simp add: feed_silent)
  have s7: "feed ?v6 z = (None, ?v7)"
    using vz len lz cfg(2-4) L by (simp add: feed_silent)
  have s8: "feed ?v7 z = (None, ?v8)"
    using vz len lz cfg(2-4) L by (simp add: feed_silent)
  have s9: "feed ?v8 z = (Some (z @ z @ x3 @ x4 @ x5 @ z @ z @ z @ z), reset v)"
    using vz len lz cfg(2-4) L by (simp add: feed_silent)
  show ?thesis
    using s1 s2 s3 s4 s5 s6 s7 s8 s9 len lz
    by (simp del: feed_all_Cons add: feed_all.simps(2))
qed

theorem example_sequence_nine_frames_witness:
  "feed_all (reset (vad_example 30))
      [[0], [0], [2 / 100], [2 / 100], [2 / 100], [0], [0], [0], [0], [0]] =
     ([None, None, None, None, None, None, None, None,
       Some [0, 0, 2 / 100, 2 / 100, 2 / 100, 0, 0, 0, 0], None],
      (reset (vad_example 30))\<lparr>buf := [0], silence_run := 1\<rparr>)"
proof -
  have "th (vad_example 30) = 15 / 1000" "min_utt (vad_example 30) = 2 * int 1"
    "silence_need (vad_example 30) = 4 * int 1" "9 * int 1 < max_utt (vad_example 30)"
    "energy [2 / 100] = Some (2 / 100)" "length [2 / 100 :: real] = 1"
    "[0::real] = replicate 1 0"
    by (simp_all add: energy_def)
  from example_sequence_nine_frames
    [OF this(1-4) this(5) this(5) this(5) this(6) this(6) this(6) this(7)]
  show ?thesis by (simp del: feed_all_Cons)
qed

text \<open>
  The claim as the specification states it (one utterance of 3 frames, the buffer empty
  afterwards) fails on frames of one sample with the default ratio of 30 frames for the
  maximum: the utterance has 9 samples, and the buffer holds one sample after the tenth
  frame.
\<close>

theorem example_sequence_not_three_frames:
  "map (map_option length)
     (fst (feed_all (vad_example 30)
        [[0], [0], [2 / 100], [2 / 100], [2 / 100], [0], [0], [0], [0], [0]])) =
     [None, None, None, None, None, None, None, None, Some 9, None]
   \<and> buf (snd (feed_all (vad_example 30)
        [[0], [0], [2 / 100], [2 / 100], [2 / 100], [0], [0], [0], [0], [0]])) = [0]"
  by (simp only: example_run fst_conv snd_conv) simp


section \<open>The recognizer\<close>

subsection \<open>Strings, dicts and the model\<close>

lemma strip_idem: "strip (strip t) = strip t"
proof -
  let ?u = "dropWhile isspace t"
  let ?s = "rev (dropWhile isspace (rev ?u))"
  have u: "?u = ?s @ rev (takeWhile isspace (rev ?u))"
    by (metis rev_append rev_rev_ident takeWhile_dropWhile_id)
  have front: "dropWhile isspace ?s = ?s"
  proof (cases "?s = []")
    case True
    have "dropWhile isspace [] = ([]::transcript)" by simp
    with True show ?thesis by (simp only:)
  next
    case False
    with u have "hd ?s = hd ?u" "?u \<noteq> []"
      by (metis hd_append2, metis append_is_Nil_conv)
    then have "\<not> isspace (hd ?s)"
      by (metis hd_dropWhile)
    with False show ?thesis by (cases ?s) auto
  qed
  have "strip (strip t) = rev (dropWhile isspace (rev (dropWhile isspace ?s)))"
    by (simp add: strip_def)
  also have "\<dots> = rev (dropWhile isspace (rev ?s))"
    by (simp only: front)
  also have "\<dots> = ?s"
    by simp
  finally show ?thesis by (simp add: strip_def)
qed

lemma py_max_in: "py_max key b xs \<in> set (b # xs)"
  by (induction xs arbitrary: b) (auto split: if_splits)

lemma py_max_ge: "x \<in> set (b # xs) \<Longrightarrow> key x \<le> key (py_max key b xs)"
proof (induction xs arbitrary: b x)
  case Nil
  then show ?case by simp
next
  case (Cons a xs)
  let ?b' = "if key b < key a then a else b"
  have best: "key ?b' \<le> key (py_max key ?b' xs)"
    by (rule Cons.IH) simp
  from Cons.prems consider "x = b" | "x = a" | "x \<in> set xs" by auto
  then show ?case
  proof cases
    case 1
    have "key b \<le> key ?b'" by simp
    with best 1 show ?thesis by simp
  next
    case 2
    have "key a \<le> key ?b'" by simp
    with best 2 show ?thesis by simp
  next
    case 3
    then have "key x \<le> key (py_max key ?b' xs)"
      by (intro Cons.IH) simp
    then show ?thesis by simp
  qed
qed

lemma best_lang_snd: "snd (best_lang L r y ex f) = r\<lparr>calls := calls r @ [Detect y]\<rparr>"
  by (simp add: best_lang_def Let_def split: list.splits)

lemma asr_snd: "snd (asr L r y l) = r\<lparr>calls := calls r @ [Transcribe y l]\<rparr>"
  by (simp add: asr_def)

subsection \<open>The choice of the language\<close>

text \<open>
  Claim C7. When no entry of the detected map is left after the filter to the supported
  languages and the exclusion (the primary language in the fallback of priority mode, or
  nothing), \<open>_best_lang\<close> returns the sticky language if one is set and \<^verbatim>\<open>"en"\<close>
  otherwise; it returns a language in every case.
\<close>

theorem empty_map_falls_back:
  assumes "\<forall>kv\<in>set (detect_language L (length (calls r)) y). fst kv \<notin> allowed \<or> fst kv \<in> exclude"
  shows "fst (best_lang L r y exclude force)
           = (if truthy (last_lang r) then the (last_lang r) else ''en'')"
proof -
  let ?probs = "detect_language L (length (calls r)) y"
  let ?filt0 = "filter (\<lambda>kv. fst kv \<in> allowed) ?probs"
  have "(if exclude \<noteq> {} then filter (\<lambda>kv. fst kv \<notin> exclude) ?filt0 else ?filt0) = []"
    using assms by (auto simp: filter_empty_conv)
  then have "fst (best_lang L r y exclude force) = py_or (last_lang r) ''en''"
    by (simp add: best_lang_def Let_def)
  then show ?thesis
    by (simp add: py_or_def truthy_def split: option.splits)
qed

lemma libs_example_fields [simp]:
  "pad_or_trim (libs_example p t) = whisper_pad_or_trim"
  "wiener (libs_example p t) x = None"
  "detect_language (libs_example p t) n a = p"
  "transcribe (libs_example p t) n a l = map_of t l"
  by (simp_all add: libs_example_def)

lemma recognizer_running_fields [simp]:
  "is_running recognizer_running" "\<not> is_paused recognizer_running"
  "\<not> stop_evt recognizer_running" "model_loaded recognizer_running"
  "audio_q recognizer_running = []" "last_lang recognizer_running = None"
  "cfg_gain_db recognizer_running = 0" "cfg_noise_reduction recognizer_running"
  "cfg_lang_mode recognizer_running = ''standard''"
  "cfg_chosen_lang recognizer_running = ''ru''"
  "calls recognizer_running = []" "emitted recognizer_running = []"
  by (simp_all add: recognizer_running_def)

theorem empty_map_falls_back_witness:
  "fst (best_lang (libs_example [(''fr'', 9 / 10), (''ru'', 1 / 10)] [])
          (recognizer_running\<lparr>last_lang := Some ''zh''\<rparr>) [] {''ru''} False) = ''zh''"
proof -
  have "\<forall>kv\<in>set (detect_language (libs_example [(''fr'', 9 / 10), (''ru'', 1 / 10)] [])
            (length (calls (recognizer_running\<lparr>last_lang := Some ''zh''\<rparr>))) []).
          fst kv \<notin> allowed \<or> fst kv \<in> {''ru''}"
    by (simp add: allowed_def)
  from empty_map_falls_back[OF this, of False] show ?thesis by (simp add: truthy_def)
qed


lemma standard_mode:
  assumes "cfg_lang_mode r \<noteq> ''exclusive''" "cfg_lang_mode r \<noteq> ''priority''"
  shows "recognize L r y =
     (case best_lang L r y {} False of (lang, r1) \<Rightarrow>
        case (if truthy (last_lang r1) \<and> last_lang r1 \<noteq> Some lang
              then best_lang L r1 y {} True else (lang, r1)) of (lang', r2) \<Rightarrow>
          case asr L (r2\<lparr>last_lang := Some lang'\<rparr>) y lang' of (text, r3) \<Rightarrow>
            ((lang', text), r3))"
  using assms by (simp add: recognize_def)

text \<open>The first pass, when every supported language is below the floor.\<close>

lemma best_lang_low:
  assumes sticky: "last_lang r = Some s" "s \<noteq> []"
    and low: "\<forall>kv\<in>set (detect_language L (length (calls r)) y). fst kv \<in> allowed \<longrightarrow> snd kv < 1 / 2"
  shows "fst (best_lang L r y {} False) = s"
proof -
  let ?filt = "filter (\<lambda>kv. fst kv \<in> allowed) (detect_language L (length (calls r)) y)"
  show ?thesis
  proof (cases "map fst ?filt")
    case Nil
    then show ?thesis using sticky by (simp add: best_lang_def Let_def py_or_def)
  next
    case (Cons k ks)
    let ?m = "py_max (\<lambda>k. dict_get ?filt k 0) k ks"
    have "?m \<in> set (map fst ?filt)" using py_max_in[of _ k ks] Cons by simp
    then obtain q where q: "map_of ?filt ?m = Some q"
      by (metis (no_types, lifting) map_of_eq_None_iff not_None_eq set_map)
    then have "(?m, q) \<in> set ?filt" by (rule map_of_SomeD)
    with low have "q < 1 / 2" by auto
    with q have lowm: "dict_get ?filt ?m 0 < 1 / 2" by (simp add: dict_get_def)
    show ?thesis
      using Cons sticky lowm by (auto simp: best_lang_def Let_def truthy_def)
  qed
qed

text \<open>
  Claim C5. In standard mode with a sticky language \<open>s\<close> set, when the supported
  language of highest probability, \<open>k\<close> with probability \<open>p\<close>, is below 0.50, the
  language chosen is \<open>s\<close>, the sticky language is still \<open>s\<close> afterwards, and the model
  is called for one detection and one transcription in \<open>s\<close>. (Whether \<open>k\<close> differs
  from \<open>s\<close> makes no difference.)
\<close>

theorem hysteresis_keeps_sticky:
  assumes mode: "cfg_lang_mode r \<noteq> ''exclusive''" "cfg_lang_mode r \<noteq> ''priority''"
    and sticky: "last_lang r = Some s" "s \<noteq> []"
    and top: "(k, p) \<in> set (detect_language L (length (calls r)) y)" "k \<in> allowed"
      "\<forall>kv\<in>set (detect_language L (length (calls r)) y). fst kv \<in> allowed \<longrightarrow> snd kv \<le> p"
    and low: "p < 1 / 2"
  shows "fst (fst (recognize L r y)) = s \<and> last_lang (snd (recognize L r y)) = Some s
         \<and> calls (snd (recognize L r y)) = calls r @ [Detect y, Transcribe y s]"
proof -
  have "\<forall>kv\<in>set (detect_language L (length (calls r)) y). fst kv \<in> allowed \<longrightarrow> snd kv < 1 / 2"
    using top(3) low by fastforce
  from best_lang_low[OF sticky this] have 1: "fst (best_lang L r y {} False) = s" .
  have 2: "best_lang L r y {} False = (s, r\<lparr>calls := calls r @ [Detect y]\<rparr>)"
    using 1 best_lang_snd[of L r y "{}" False] by (metis prod.collapse)
  show ?thesis
    using sticky by (simp add: standard_mode[OF mode] 2 asr_def split: prod.splits)
qed

theorem hysteresis_keeps_sticky_witness:
  "fst (fst (recognize (libs_example [(''en'', 4 / 10), (''ru'', 3 / 10), (''fr'', 9 / 10)] [])
               (recognizer_running\<lparr>last_lang := Some ''ru''\<rparr>) [])) = ''ru''
   \<and> last_lang (snd (recognize (libs_example [(''en'', 4 / 10), (''ru'', 3 / 10), (''fr'', 9 / 10)] [])
               (recognizer_running\<lparr>last_lang := Some ''ru''\<rparr>) [])) = Some ''ru''
   \<and> calls (snd (recognize (libs_example [(''en'', 4 / 10), (''ru'', 3 / 10), (''fr'', 9 / 10)] [])
               (recognizer_running\<lparr>last_lang := Some ''ru''\<rparr>) []))
        = [Detect [], Transcribe [] ''ru'']"
proof -
  let ?L = "libs_example [(''en'', 4 / 10), (''ru'', 3 / 10), (''fr'', 9 / 10)] []"
  let ?r = "recognizer_running\<lparr>last_lang := Some ''ru''\<rparr>"
  have h: "cfg_lang_mode ?r \<noteq> ''exclusive''" "cfg_lang_mode ?r \<noteq> ''priority''"
    "last_lang ?r = Some ''ru''" "''ru'' \<noteq> []"
    "(''en'', 4 / 10) \<in> set (detect_language ?L (length (calls ?r)) [])" "''en'' \<in> allowed"
    "\<forall>kv\<in>set (detect_language ?L (length (calls ?r)) []). fst kv \<in> allowed \<longrightarrow> snd kv \<le> 4 / 10"
    "(4 / 10 :: real) < 1 / 2"
    by (simp_all add: allowed_def)
  from hysteresis_keeps_sticky[OF h] show ?thesis by simp
qed

lemma best_lang_forced_same:
  assumes "detect_language L (length (calls r2)) y = detect_language L (length (calls r)) y"
    and "truthy (last_lang r)" "last_lang r \<noteq> Some (fst (best_lang L r y {} False))"
  shows "fst (best_lang L r2 y {} True) = fst (best_lang L r y {} False)"
  using assms
  by (auto simp: best_lang_def Let_def truthy_def py_or_def split: list.splits option.splits if_splits)

text \<open>
  Claim C10. In standard mode, when the detection gives the same answer for the same audio
  at every call, the language chosen is the one the first pass (with hysteresis) returns:
  the language and the sticky language are those of the one-pass decision.
\<close>

theorem confirmation_pass_is_redundant:
  assumes mode: "cfg_lang_mode r \<noteq> ''exclusive''" "cfg_lang_mode r \<noteq> ''priority''"
    and det: "\<forall>i j. detect_language L i y = detect_language L j y"
  shows "fst (fst (recognize L r y)) = fst (best_lang L r y {} False)
         \<and> fst (fst (recognize L r y)) = fst (fst (one_pass_standard L r y))
         \<and> last_lang (snd (recognize L r y)) = last_lang (snd (one_pass_standard L r y))"
proof -
  obtain lang r1 where b: "best_lang L r y {} False = (lang, r1)"
    by (cases "best_lang L r y {} False")
  then have r1: "r1 = r\<lparr>calls := calls r @ [Detect y]\<rparr>"
    using best_lang_snd[of L r y "{}" False] by simp
  have second: "fst (best_lang L r1 y {} True) = lang"
    if "truthy (last_lang r1)" "last_lang r1 \<noteq> Some lang"
  proof -
    have "detect_language L (length (calls r1)) y = detect_language L (length (calls r)) y"
      using det by blast
    from best_lang_forced_same[OF this] that b r1 show ?thesis by simp
  qed
  have one: "fst (fst (one_pass_standard L r y)) = lang"
       "last_lang (snd (one_pass_standard L r y)) = Some lang"
    using b by (simp_all add: one_pass_standard_def asr_def)
  have two: "fst (fst (recognize L r y)) = lang \<and> last_lang (snd (recognize L r y)) = Some lang"
  proof (cases "truthy (last_lang r1) \<and> last_lang r1 \<noteq> Some lang")
    case True
    obtain l2 r2 where b2: "best_lang L r1 y {} True = (l2, r2)"
      by (cases "best_lang L r1 y {} True")
    with second True have l2: "l2 = lang" by simp
    from True have c: "(truthy (last_lang r1) \<and> last_lang r1 \<noteq> Some lang) = True" by simp
    show ?thesis
      unfolding standard_mode[OF mode] b by (simp add: c b2 l2 asr_def)
  next
    case False
    then have c: "(truthy (last_lang r1) \<and> last_lang r1 \<noteq> Some lang) = False" by simp
    show ?thesis
      unfolding standard_mode[OF mode] b by (simp add: c asr_def)
  qed
  from one two b show ?thesis by simp
qed

theorem confirmation_pass_is_redundant_witness:
  "fst (fst (recognize (libs_example [(''en'', 9 / 10), (''ru'', 1 / 10)] [])
               (recognizer_running\<lparr>last_lang := Some ''ru''\<rparr>) []))
     = fst (best_lang (libs_example [(''en'', 9 / 10), (''ru'', 1 / 10)] [])
               (recognizer_running\<lparr>last_lang := Some ''ru''\<rparr>) [] {} False)
   \<and> fst (fst (recognize (libs_example [(''en'', 9 / 10), (''ru'', 1 / 10)] [])
               (recognizer_running\<lparr>last_lang := Some ''ru''\<rparr>) []))
     = fst (fst (one_pass_standard (libs_example [(''en'', 9 / 10), (''ru'', 1 / 10)] [])
               (recognizer_running\<lparr>last_lang := Some ''ru''\<rparr>) []))
   \<and> last_lang (snd (recognize (libs_example [(''en'', 9 / 10), (''ru'', 1 / 10)] [])
               (recognizer_running\<lparr>last_lang := Some ''ru''\<rparr>) []))
     = last_lang (snd (one_pass_standard (libs_example [(''en'', 9 / 10), (''ru'', 1 / 10)] [])
               (recognizer_running\<lparr>last_lang := Some ''ru''\<rparr>) []))"
proof -
  let ?L = "libs_example [(''en'', 9 / 10), (''ru'', 1 / 10)] []"
  let ?r = "recognizer_running\<lparr>last_lang := Some ''ru''\<rparr>"
  have h: "cfg_lang_mode ?r \<noteq> ''exclusive''" "cfg_lang_mode ?r \<noteq> ''priority''"
    "\<forall>i j. detect_language ?L i [] = detect_language ?L j []"
    by simp_all
  show ?thesis by (rule confirmation_pass_is_redundant[OF h])
qed

subsection \<open>Priority mode\<close>

text \<open>
  Claim C3, as the code has it. In priority mode, when the transcription in the primary
  language has at least two characters (after \<^verbatim>\<open>strip\<close>), the model is called exactly
  once for the utterance, for that transcription, and the line emitted carries the
  primary language. \<open>y\<close> is the audio after \<^verbatim>\<open>pad_or_trim\<close> and the optional noise
  reduction.
\<close>

theorem priority_single_transcription:
  assumes mode: "cfg_lang_mode r = ''priority''" and loaded: "model_loaded r"
    and y: "y = (if cfg_noise_reduction r then denoise_wiener L (pad_or_trim L utt)
                 else pad_or_trim L utt)"
    and long: "2 \<le> length (fst (asr L r y (primary_lang r)))"
  shows "calls (process_utterance L r utt) = calls r @ [Transcribe y (primary_lang r)]
         \<and> emitted (process_utterance L r utt)
             = emitted r @ [(primary_lang r, fst (asr L r y (primary_lang r)))]"
proof -
  obtain t where a: "asr L r y (primary_lang r)
      = (t, r\<lparr>calls := calls r @ [Transcribe y (primary_lang r)]\<rparr>)"
    and st: "strip t = t"
    by (simp add: asr_def strip_idem)
  from long a have len: "\<not> length t < 2" and ne: "t \<noteq> []" by auto
  have rec: "recognize L r y
      = ((primary_lang r, t), r\<lparr>calls := calls r @ [Transcribe y (primary_lang r)]\<rparr>)"
    using mode len st by (simp add: recognize_def Let_def a)
  have "process_utterance L r utt =
     r\<lparr>calls := calls r @ [Transcribe y (primary_lang r)],
       emitted := emitted r @ [(primary_lang r, t)]\<rparr>"
    using loaded y[symmetric] ne st by (simp add: process_utterance_def Let_def rec)
  then show ?thesis using a by simp
qed


theorem priority_single_transcription_witness:
  "calls (process_utterance (libs_example [] [(''ru'', [1087, 1088])])
            (recognizer_running\<lparr>cfg_lang_mode := ''priority''\<rparr>) [0])
     = [Transcribe (whisper_pad_or_trim [0]) ''ru'']
   \<and> emitted (process_utterance (libs_example [] [(''ru'', [1087, 1088])])
            (recognizer_running\<lparr>cfg_lang_mode := ''priority''\<rparr>) [0])
     = [(''ru'', [1087, 1088])]"
proof -
  let ?L = "libs_example [] [(''ru'', [1087, 1088])]"
  let ?r = "recognizer_running\<lparr>cfg_lang_mode := ''priority''\<rparr>"
  have p: "primary_lang ?r = ''ru''" by (simp add: primary_lang_def allowed_def)
  have s: "strip [1087, 1088] = [1087, 1088]" by (simp add: strip_def isspace_def)
  have h: "cfg_lang_mode ?r = ''priority''" "model_loaded ?r"
    "whisper_pad_or_trim [0] = (if cfg_noise_reduction ?r then denoise_wiener ?L (pad_or_trim ?L [0])
                 else pad_or_trim ?L [0])"
    "2 \<le> length (fst (asr ?L ?r (whisper_pad_or_trim [0]) (primary_lang ?r)))"
    by (simp_all add: denoise_wiener_def asr_def p s)
  from priority_single_transcription[OF h] show ?thesis by (simp add: asr_def p s)
qed

text \<open>
  The claim as the specification states it (any non-empty text) fails: a transcript of
  one character is not empty, and the recognizer still runs the detection and a second
  transcription, and emits the line in the detected language.
\<close>

theorem priority_short_text_falls_back:
  "fst (asr (libs_example [(''en'', 9 / 10)] [(''ru'', [97]), (''en'', [97])])
          (recognizer_running\<lparr>cfg_lang_mode := ''priority''\<rparr>) (whisper_pad_or_trim [0]) ''ru'') = [97]
   \<and> calls (process_utterance (libs_example [(''en'', 9 / 10)] [(''ru'', [97]), (''en'', [97])])
            (recognizer_running\<lparr>cfg_lang_mode := ''priority''\<rparr>) [0])
     = [Transcribe (whisper_pad_or_trim [0]) ''ru'', Detect (whisper_pad_or_trim [0]),
        Transcribe (whisper_pad_or_trim [0]) ''en'']
   \<and> emitted (process_utterance (libs_example [(''en'', 9 / 10)] [(''ru'', [97]), (''en'', [97])])
            (recognizer_running\<lparr>cfg_lang_mode := ''priority''\<rparr>) [0])
     = [(''en'', [97])]"
proof -
  have s: "strip [97] = [97]" by (simp add: strip_def isspace_def)
  show ?thesis
    by (simp add: process_utterance_def recognize_def asr_def best_lang_def Let_def s
        primary_lang_def allowed_def denoise_wiener_def truthy_def dict_get_def)
qed


section \<open>The gain\<close>





section \<open>Pause and resume\<close>

lemma run_Cons:
  "run L r (e # es) =
     (fst (step L r e) # fst (run L (snd (step L r e)) es), snd (run L (snd (step L r e)) es))"
  by (simp split: prod.splits)

lemma run_append:
  "run L r (xs @ ys) =
     (fst (run L r xs) @ fst (run L (snd (run L r xs)) ys), snd (run L (snd (run L r xs)) ys))"
  by (induction xs arbitrary: r) (simp_all add: run_Cons del: run.simps(2))

lemma pause_timeout_resume:
  assumes "is_running r" "\<not> is_paused r" "\<not> stop_evt r" "audio_q r = []"
  shows "run L r [Pause, Proc, Resume] = ([None, None, None], r)"
proof -
  have p: "pause r = r\<lparr>is_paused := True\<rparr>" using assms by (simp add: pause_def)
  have q: "process_iteration L (r\<lparr>is_paused := True\<rparr>) = (None, r\<lparr>is_paused := True\<rparr>)"
    using assms by (simp add: process_iteration_def)
  have s: "resume (r\<lparr>is_paused := True\<rparr>) = r\<lparr>is_paused := False\<rparr>"
    using assms by (simp add: resume_def)
  have e: "r\<lparr>is_paused := False\<rparr> = r"
    using assms(2) by (cases r) simp
  show ?thesis by (simp add: p q s e)
qed

lemma mic_proc:
  assumes "is_running r" "\<not> is_paused r" "\<not> stop_evt r" "audio_q r = []" "cfg_gain_db r = 0"
  shows "fst (run L r [Mic x, Proc]) = [None, fst (feed (vad r) x)]"
    and "fst (feed (vad r) x) = None \<Longrightarrow>
         snd (run L r [Mic x, Proc]) = r\<lparr>vad := snd (feed (vad r) x)\<rparr>"
proof -
  let ?r1 = "r\<lparr>audio_q := [x]\<rparr>"
  have m: "mic_callback r x = ?r1"
    using assms by (simp add: mic_callback_def apply_gain_def)
  have e: "r\<lparr>audio_q := []\<rparr> = r"
    using assms(4) by (cases r) simp
  have p1: "fst (process_iteration L ?r1) = fst (feed (vad r) x)"
    using assms by (simp add: process_iteration_def Let_def split: prod.splits option.splits)
  have p2: "snd (process_iteration L ?r1) = r\<lparr>vad := snd (feed (vad r) x)\<rparr>"
    if "fst (feed (vad r) x) = None"
  proof -
    from that obtain v' where f: "feed (vad r) x = (None, v')"
      by (cases "feed (vad r) x") auto
    show ?thesis using assms e by (simp add: process_iteration_def Let_def f)
  qed
  show "fst (run L r [Mic x, Proc]) = [None, fst (feed (vad r) x)]"
    by (simp add: run_Cons m p1 del: run.simps(2))
  show "snd (run L r [Mic x, Proc]) = r\<lparr>vad := snd (feed (vad r) x)\<rparr>"
    if "fst (feed (vad r) x) = None"
    using p2[OF that] by (simp add: run_Cons m del: run.simps(2))
qed


lemma run_frames_quiet:
  assumes "is_running r" "\<not> is_paused r" "\<not> stop_evt r" "audio_q r = []" "cfg_gain_db r = 0"
    and "fst (feed_all (vad r) fs) = replicate (length fs) None"
  shows "run L r (concat (map (\<lambda>x. [Mic x, Proc]) fs))
           = (replicate (2 * length fs) None, r\<lparr>vad := snd (feed_all (vad r) fs)\<rparr>)"
  using assms
proof (induction fs arbitrary: r)
  case Nil
  then show ?case by simp
next
  case (Cons x fs)
  let ?r1 = "r\<lparr>vad := snd (feed (vad r) x)\<rparr>"
  from Cons.prems(6) have none: "fst (feed (vad r) x) = None"
    and rest: "fst (feed_all (vad ?r1) fs) = replicate (length fs) None"
    by simp_all
  have a: "run L r [Mic x, Proc] = ([None, None], ?r1)"
    using mic_proc[OF Cons.prems(1-5), where L = L and x = x] none by (metis prod.collapse)
  have b: "run L ?r1 (concat (map (\<lambda>x. [Mic x, Proc]) fs))
      = (replicate (2 * length fs) None, ?r1\<lparr>vad := snd (feed_all (vad ?r1) fs)\<rparr>)"
    using Cons.prems(1-5) rest by (intro Cons.IH) simp_all
  have "run L r (concat (map (\<lambda>x. [Mic x, Proc]) (x # fs)))
      = run L r ([Mic x, Proc] @ concat (map (\<lambda>x. [Mic x, Proc]) fs))" by simp
  also have "\<dots> = (replicate (2 * length (x # fs)) None, r\<lparr>vad := snd (feed_all (vad r) (x # fs))\<rparr>)"
    by (simp only: run_append a b fst_conv snd_conv) simp
  finally show ?case .
qed

lemma voice_replicate: "voice t (replicate n c) \<longleftrightarrow> 0 < n \<and> t \<le> \<bar>c\<bar>"
  by (simp add: voice_def energy_def sum_list_replicate)

lemma vad_default:
  "vad recognizer_running =
     \<lparr>sr = 16000, th = 15 / 1000, min_utt = 14400, max_utt = 96000, silence_need = 7200,
      buf = [], silence_run = 0, in_speech = False\<rparr>"
  by (simp add: recognizer_running_def EnergyVAD_init_def reset_def py_int_def)

lemma pause_trace_segmenter:
  fixes a b z :: frame
  assumes "a = block (1 / 2)" "b = block (1 / 4)" "z = block 0"
  shows "feed_all (vad recognizer_running) [a, a] =
           ([None, None], (vad recognizer_running)\<lparr>buf := a @ a, in_speech := True\<rparr>)"
    and "feed_all ((vad recognizer_running)\<lparr>buf := a @ a, in_speech := True\<rparr>) [b, b, b, z, z] =
           ([None, None, None, None, None],
            (vad recognizer_running)\<lparr>buf := a @ a @ b @ b @ b @ z @ z, in_speech := True,
                silence_run := 6400\<rparr>)"
    and "feed ((vad recognizer_running)\<lparr>buf := a @ a @ b @ b @ b @ z @ z, in_speech := True,
                silence_run := 6400\<rparr>) z =
           (Some (a @ a @ b @ b @ b @ z @ z @ z), reset (vad recognizer_running))"
  unfolding assms block_def vad_default
  by (simp_all del: feed_all_Cons add: feed_all.simps(2) feed_voice feed_silent voice_replicate
        reset_def)

lemma pause_trace_general:
  assumes run: "is_running r" "\<not> is_paused r" "\<not> stop_evt r" "audio_q r = []" "cfg_gain_db r = 0"
    and f1: "feed_all (vad r) [a, a] = ([None, None], v2)"
    and f2: "feed_all v2 [b, b, b, z, z] = ([None, None, None, None, None], v7)"
    and f3: "feed v7 z = (Some u, v8)"
  shows "fst (run L r [Mic a, Proc, Mic a, Proc, Pause, Proc, Resume,
                       Mic b, Proc, Mic b, Proc, Mic b, Proc,
                       Mic z, Proc, Mic z, Proc, Mic z, Proc]) =
           [None, None, None, None, None, None, None,
            None, None, None, None, None, None,
            None, None, None, None, None, Some u]"
proof -
  let ?f = "\<lambda>x. [Mic x, Proc]"
  let ?r2 = "r\<lparr>vad := v2\<rparr>"
  let ?r7 = "r\<lparr>vad := v7\<rparr>"
  have n4: "replicate (2 * length [a, a]) (None :: frame option) = [None, None, None, None]"
    by (simp add: numeral_eq_Suc)
  have n10: "replicate (2 * length [b, b, b, z, z]) (None :: frame option)
      = [None, None, None, None, None, None, None, None, None, None]"
    by (simp add: numeral_eq_Suc)
  have s1: "run L r (concat (map ?f [a, a])) = ([None, None, None, None], ?r2)"
    using run_frames_quiet[OF run, of "[a, a]" L] f1 by (simp only: n4 fst_conv snd_conv) simp
  have s2: "run L ?r2 [Pause, Proc, Resume] = ([None, None, None], ?r2)"
    using run by (intro pause_timeout_resume) simp_all
  have run2: "is_running ?r2" "\<not> is_paused ?r2" "\<not> stop_evt ?r2" "audio_q ?r2 = []"
    "cfg_gain_db ?r2 = 0"
    using run by simp_all
  have s3: "run L ?r2 (concat (map ?f [b, b, b, z, z]))
      = ([None, None, None, None, None, None, None, None, None, None], ?r7)"
    using run_frames_quiet[OF run2, of "[b, b, b, z, z]" L] f2
    by (simp only: n10 fst_conv snd_conv) simp
  have run7: "is_running ?r7" "\<not> is_paused ?r7" "\<not> stop_evt ?r7" "audio_q ?r7 = []"
    "cfg_gain_db ?r7 = 0"
    using run by simp_all
  have s4: "fst (run L ?r7 [Mic z, Proc]) = [None, Some u]"
    using mic_proc(1)[OF run7, of L z] f3 by simp
  have "[Mic a, Proc, Mic a, Proc, Pause, Proc, Resume,
         Mic b, Proc, Mic b, Proc, Mic b, Proc, Mic z, Proc, Mic z, Proc, Mic z, Proc]
      = concat (map ?f [a, a]) @ [Pause, Proc, Resume] @ concat (map ?f [b, b, b, z, z])
          @ [Mic z, Proc]"
    by simp
  then show ?thesis
    by (simp only: run_append s1 s2 s3 s4 fst_conv snd_conv) simp
qed

text \<open>
  Claim C4 fails on the code. Two voiced blocks are in the buffer of the segmenter and the
  queue is empty when \<^verbatim>\<open>pause()\<close> is called; while paused the loop only times out on
  the empty queue (the callback drops the blocks, so nothing reaches the branch that
  resets the segmenter); after \<^verbatim>\<open>resume()\<close> three voiced and three silent blocks
  follow. The utterance the loop then takes from the segmenter begins with the two
  blocks buffered before the pause.
\<close>

theorem pause_keeps_partial_utterance:
  "fst (run L recognizer_running
          [Mic (block (1 / 2)), Proc, Mic (block (1 / 2)), Proc, Pause, Proc, Resume,
           Mic (block (1 / 4)), Proc, Mic (block (1 / 4)), Proc, Mic (block (1 / 4)), Proc,
           Mic (block 0), Proc, Mic (block 0), Proc, Mic (block 0), Proc]) =
     [None, None, None, None, None, None, None,
      None, None, None, None, None, None,
      None, None, None, None, None,
      Some (block (1 / 2) @ block (1 / 2) @ block (1 / 4) @ block (1 / 4) @ block (1 / 4)
            @ block 0 @ block 0 @ block 0)]"
  by (rule pause_trace_general[OF _ _ _ _ _ pause_trace_segmenter[OF refl refl refl]]) simp_all

end
